theory Spec2Isabelle
  imports Complex_Main "HOL-Library.Log_Nat" "HOL-Library.Multiset"
begin

section \<open>JavaScript numbers\<close>

text \<open>
  The times handled by \<open>RankingCard.jsx\<close> are JavaScript numbers, that is IEEE 754
  binary64 values. A finite number is modelled by the rational it denotes, and the
  special values are constructors of their own. The result of a division, a subtraction
  or a multiplication is rounded to binary64 (\<open>to_double\<close> below), so the model
  computes what the component computes, rounding error and overflow included. The one
  thing that is not modelled is the sign of zero.
\<close>

datatype jsnum = NaN | NegInf | Fin rat | PosInf

text \<open>The relational operators: every comparison with \<open>NaN\<close> is false.\<close>

fun js_lt :: "jsnum \<Rightarrow> jsnum \<Rightarrow> bool" where
  "js_lt NaN _ = False"
| "js_lt _ NaN = False"
| "js_lt (Fin a) (Fin b) = (a < b)"
| "js_lt PosInf _ = False"
| "js_lt _ PosInf = True"
| "js_lt _ NegInf = False"
| "js_lt NegInf _ = True"

definition js_gt :: "jsnum \<Rightarrow> jsnum \<Rightarrow> bool" where
  "js_gt x y = js_lt y x"

fun js_le :: "jsnum \<Rightarrow> jsnum \<Rightarrow> bool" where
  "js_le NaN _ = False"
| "js_le _ NaN = False"
| "js_le x y = (x = y \<or> js_lt x y)"

definition js_ge :: "jsnum \<Rightarrow> jsnum \<Rightarrow> bool" where
  "js_ge x y = js_le y x"

text \<open>Unary minus.\<close>

fun js_neg :: "jsnum \<Rightarrow> jsnum" where
  "js_neg NaN = NaN"
| "js_neg NegInf = PosInf"
| "js_neg (Fin a) = Fin (- a)"
| "js_neg PosInf = NegInf"

subsection \<open>Rounding to binary64\<close>

text \<open>
  \<open>ilog2 x\<close> is the binary exponent of a positive \<open>x\<close>, the integer \<open>e\<close> with
  \<open>2^e \<le> x < 2^(e+1)\<close>, computed from the bit length of an integer.
\<close>

definition ilog2 :: "rat \<Rightarrow> int" where
  "ilog2 x = (if 1 \<le> x then bitlen \<lfloor>x\<rfloor> - 1 else - bitlen (\<lceil>1 / x\<rceil> - 1))"

text \<open>The nearest integer, a tie going to the even one.\<close>

definition round_even :: "rat \<Rightarrow> int" where
  "round_even x =
     (let f = \<lfloor>x\<rfloor>; d = x - of_int f
      in if d < 1 / 2 then f else if 1 / 2 < d then f + 1 else if even f then f else f + 1)"

text \<open>
  The exponent of the unit in the last place of a positive \<open>x\<close>: a significand has 53
  bits, and below \<open>2^-1022\<close> the numbers are subnormal, with spacing \<open>2^-1074\<close>.
\<close>

definition ulp_exp :: "rat \<Rightarrow> int" where
  "ulp_exp x = max (ilog2 x - 52) (- 1074)"

text \<open>
  A positive \<open>x\<close> rounded to the nearest binary64 value, ties to even: the significand
  \<open>m\<close> is \<open>x\<close> in units of the last place, rounded; when the exponent leaves the
  range (the largest finite value is \<open>(2^53 - 1) * 2^971\<close>) the result is infinity.
\<close>

definition round_magnitude :: "rat \<Rightarrow> jsnum" where
  "round_magnitude x =
     (let k = ulp_exp x;
          m = round_even (x / 2 powi k)
      in if 971 < k \<or> (k = 971 \<and> m = 2 ^ 53) then PosInf
         else Fin (of_int m * 2 powi k))"

text \<open>Rounding is symmetric in the sign.\<close>

definition to_double :: "rat \<Rightarrow> jsnum" where
  "to_double x =
     (if x = 0 then Fin 0
      else if 0 < x then round_magnitude x
      else js_neg (round_magnitude (- x)))"

text \<open>
  The value of \<open>round_magnitude\<close> before the range check; it is used in the proofs
  only.
\<close>

definition nearest :: "rat \<Rightarrow> rat" where
  "nearest x = of_int (round_even (x / 2 powi ulp_exp x)) * 2 powi ulp_exp x"

subsection \<open>Arithmetic\<close>

text \<open>
  Division: the rounded quotient; a finite non-zero number over zero is an infinity,
  zero over zero and an infinity over an infinity are \<open>NaN\<close>, a finite number over an
  infinity is zero.
\<close>

fun js_div :: "jsnum \<Rightarrow> jsnum \<Rightarrow> jsnum" where
  "js_div NaN _ = NaN"
| "js_div _ NaN = NaN"
| "js_div (Fin a) (Fin b) =
     (if b \<noteq> 0 then to_double (a / b)
      else if a = 0 then NaN
      else if 0 < a then PosInf else NegInf)"
| "js_div (Fin a) _ = Fin 0"
| "js_div PosInf (Fin b) = (if 0 \<le> b then PosInf else NegInf)"
| "js_div NegInf (Fin b) = (if 0 \<le> b then NegInf else PosInf)"
| "js_div _ _ = NaN"

fun js_sub :: "jsnum \<Rightarrow> jsnum \<Rightarrow> jsnum" where
  "js_sub NaN _ = NaN"
| "js_sub _ NaN = NaN"
| "js_sub (Fin a) (Fin b) = to_double (a - b)"
| "js_sub (Fin a) PosInf = NegInf"
| "js_sub (Fin a) NegInf = PosInf"
| "js_sub PosInf PosInf = NaN"
| "js_sub PosInf _ = PosInf"
| "js_sub NegInf NegInf = NaN"
| "js_sub NegInf _ = NegInf"

fun js_mul :: "jsnum \<Rightarrow> jsnum \<Rightarrow> jsnum" where
  "js_mul NaN _ = NaN"
| "js_mul _ NaN = NaN"
| "js_mul (Fin a) (Fin b) = to_double (a * b)"
| "js_mul (Fin a) PosInf = (if a = 0 then NaN else if 0 < a then PosInf else NegInf)"
| "js_mul (Fin a) NegInf = (if a = 0 then NaN else if 0 < a then NegInf else PosInf)"
| "js_mul PosInf (Fin b) = (if b = 0 then NaN else if 0 < b then PosInf else NegInf)"
| "js_mul NegInf (Fin b) = (if b = 0 then NaN else if 0 < b then NegInf else PosInf)"
| "js_mul PosInf PosInf = PosInf"
| "js_mul PosInf NegInf = NegInf"
| "js_mul NegInf PosInf = NegInf"
| "js_mul NegInf NegInf = PosInf"

text \<open>
  \<open>Math.round\<close>: the nearest integer, a tie going towards plus infinity
  (\<open>Math.round(2.5)\<close> is 3 and \<open>Math.round(-2.5)\<close> is -2); the special values are
  returned as they are. The result is exact: an integer next to a binary64 value is a
  binary64 value.
\<close>

fun Math_round :: "jsnum \<Rightarrow> jsnum" where
  "Math_round (Fin a) = Fin (of_int \<lfloor>a + 1 / 2\<rfloor>)"
| "Math_round x = x"

text \<open>
  \<open>parseFloat\<close> applied to a number converts it to its decimal string and reads the
  string back, which returns the number.
\<close>

definition parseFloat :: "jsnum \<Rightarrow> jsnum" where
  "parseFloat x = x"

text \<open>\<open>Math.max\<close> on the integers of the bar width.\<close>

definition Math_max :: "int \<Rightarrow> int \<Rightarrow> int" where
  "Math_max a b = (if a < b then b else a)"

section \<open>The ranking card\<close>

text \<open>
  The \<open>metrics\<close> prop (\<open>algoMetrics\<close> in the component, and the value of
  \<open>currentAlgoMetrics\<close> when it is present). The counts are displayed only;
  \<open>time\<close> is the number that the field holds or, for a decimal string, denotes
  (the component reads it with \<open>>\<close> and through \<open>parseFloat\<close>), and
  \<open>NaN\<close> when the field is absent.
\<close>

record metrics =
  swaps :: int
  comparisons :: int
  time :: jsnum

subsection \<open>Colour schemes\<close>

record hoverScheme =
  hover_bg :: string
  hover_text :: string

record colorScheme =
  bg :: string
  accent :: string
  border :: string
  text_class :: string
  hover :: hoverScheme

text \<open>The four object literals that \<open>getColorScheme\<close> returns.\<close>

definition green_scheme :: colorScheme where
  "green_scheme =
     \<lparr> bg = ''from-green-500/5 via-green-500/10 to-green-500/5'',
       accent = ''from-green-500/10 to-emerald-500/10'',
       border = ''border-green-500'',
       text_class = ''text-green-500'',
       hover = \<lparr> hover_bg = ''from-green-500/20 via-green-500/30 to-green-500/20'',
                 hover_text = ''text-green-400'' \<rparr> \<rparr>"

definition cyan_scheme :: colorScheme where
  "cyan_scheme =
     \<lparr> bg = ''from-cyan-500/5 via-cyan-500/10 to-cyan-500/5'',
       accent = ''from-cyan-500/10 to-blue-500/10'',
       border = ''border-cyan-500'',
       text_class = ''text-cyan-500'',
       hover = \<lparr> hover_bg = ''from-cyan-500/20 via-cyan-500/30 to-cyan-500/20'',
                 hover_text = ''text-cyan-400'' \<rparr> \<rparr>"

definition red_scheme :: colorScheme where
  "red_scheme =
     \<lparr> bg = ''from-red-500/5 via-red-500/10 to-red-500/5'',
       accent = ''from-red-500/10 to-orange-500/10'',
       border = ''border-red-500'',
       text_class = ''text-red-500'',
       hover = \<lparr> hover_bg = ''from-red-500/20 via-red-500/30 to-red-500/20'',
                 hover_text = ''text-red-400'' \<rparr> \<rparr>"

definition slate_scheme :: colorScheme where
  "slate_scheme =
     \<lparr> bg = ''from-slate-500/5 via-slate-500/10 to-slate-500/5'',
       accent = ''from-slate-500/10 to-slate-400/10'',
       border = ''border-slate-500'',
       text_class = ''text-slate-500'',
       hover = \<lparr> hover_bg = ''from-slate-500/20 via-slate-500/30 to-slate-500/20'',
                 hover_text = ''text-slate-400'' \<rparr> \<rparr>"

text \<open>
  \<open>getColorScheme\<close>: a \<open>switch\<close> on the algorithm name with three groups of
  \<open>case\<close> labels and a \<open>default\<close>; the labels are compared with \<open>===\<close>.
\<close>

definition getColorScheme :: "string \<Rightarrow> colorScheme" where
  "getColorScheme algo =
     (if algo = ''quick'' \<or> algo = ''merge'' \<or> algo = ''heap'' then green_scheme
      else if algo = ''radix'' \<or> algo = ''bucket'' then cyan_scheme
      else if algo = ''insertion'' \<or> algo = ''selection'' \<or> algo = ''bubble'' then red_scheme
      else slate_scheme)"

subsection \<open>Performance bar\<close>

text \<open>The width of the bar, in percent: \<open>Math.max(5, 100 - (rank - 1) * 15)\<close>.\<close>

definition barWidth :: "int \<Rightarrow> int" where
  "barWidth rank = Math_max 5 (100 - (rank - 1) * 15)"

subsection \<open>Comparison with the current algorithm\<close>

datatype direction = Faster | Slower

text \<open>
  The last block of the component. It is rendered when
  \<open>algo !== algorithm && currentAlgoMetrics && algoMetrics.time > 0\<close>; a
  \<open>currentAlgoMetrics\<close> that is \<open>null\<close> or \<open>undefined\<close> is \<open>None\<close>. What is
  rendered is the number \<open>Math.round(...)\<close> followed by \<open>% faster\<close> or \<open>% slower\<close>.
\<close>

definition comparison ::
  "string \<Rightarrow> metrics \<Rightarrow> string \<Rightarrow> metrics option \<Rightarrow> (direction \<times> jsnum) option" where
  "comparison algo algoMetrics algorithm currentAlgoMetrics =
     (if algo \<noteq> algorithm then
        (case currentAlgoMetrics of
           None \<Rightarrow> None
         | Some cur \<Rightarrow>
             if js_gt (time algoMetrics) (Fin 0) then
               if js_lt (parseFloat (time algoMetrics)) (parseFloat (time cur)) then
                 Some (Faster,
                   Math_round (js_mul
                     (js_sub (js_div (parseFloat (time algoMetrics)) (parseFloat (time cur)))
                        (Fin 1))
                     (Fin (- 100))))
               else
                 Some (Slower,
                   Math_round (js_mul
                     (js_sub (js_div (parseFloat (time algoMetrics)) (parseFloat (time cur)))
                        (Fin 1))
                     (Fin 100)))
             else None)
      else None)"

text \<open>
  The specification's \<open>MetricsRecord\<close> is an algorithm identifier with its metrics, and
  its \<open>compare(candidate, baseline)\<close> is the block above for a card whose
  \<open>algo\<close> and \<open>metrics\<close> props are the candidate's and whose \<open>algorithm\<close> and
  \<open>currentAlgoMetrics\<close> props are the baseline's.
\<close>

type_synonym MetricsRecord = "string \<times> metrics"

abbreviation algorithmId :: "MetricsRecord \<Rightarrow> string" where
  "algorithmId r \<equiv> fst r"

abbreviation timeMs :: "MetricsRecord \<Rightarrow> jsnum" where
  "timeMs r \<equiv> time (snd r)"

definition compare :: "MetricsRecord \<Rightarrow> MetricsRecord \<Rightarrow> (direction \<times> jsnum) option" where
  "compare r b = comparison (algorithmId r) (snd r) (algorithmId b) (Some (snd b))"

section \<open>The specification's rounding\<close>



section \<open>The ranking engine\<close>

text \<open>
  The component receives a finished \<open>rank\<close> prop; the code that orders the records
  and numbers them is not among the source files, so the ranking engine below follows
  sections 4.1 and 7 of the specification. The input mapping is the list of its entries
  in the mapping's order.
\<close>

text \<open>
  Modelled from the spec: the \<open>InvalidRecord\<close> test of the missing ranking code
  (section 7); a record with negative swaps, comparisons or time.
\<close>

definition InvalidRecord :: "MetricsRecord \<Rightarrow> bool" where
  "InvalidRecord r =
     (swaps (snd r) < 0 \<or> comparisons (snd r) < 0 \<or> js_lt (timeMs r) (Fin 0))"

text \<open>
  Modelled from the spec: the eligibility test of the missing ranking code; only records
  with \<open>timeMs > 0\<close> are eligible.
\<close>

definition eligible :: "MetricsRecord \<Rightarrow> bool" where
  "eligible r = js_gt (timeMs r) (Fin 0)"

text \<open>
  Modelled from the spec: the filter of the missing ranking code; a record is ranked
  when it is eligible (section 4.1) and is not excluded as invalid (section 7).
\<close>

definition ranked :: "MetricsRecord \<Rightarrow> bool" where
  "ranked r = (eligible r \<and> \<not> InvalidRecord r)"

text \<open>
  Modelled from the spec: the stable ascending sort by \<open>timeMs\<close> of the missing
  ranking code, as an insertion sort; a record goes in front of the first record whose
  time is not smaller, so records with equal times keep their input order.
\<close>

fun insert_by_time :: "MetricsRecord \<Rightarrow> MetricsRecord list \<Rightarrow> MetricsRecord list" where
  "insert_by_time x [] = [x]"
| "insert_by_time x (y # ys) =
     (if js_le (timeMs x) (timeMs y) then x # y # ys else y # insert_by_time x ys)"

fun sort_by_time :: "MetricsRecord list \<Rightarrow> MetricsRecord list" where
  "sort_by_time [] = []"
| "sort_by_time (x # xs) = insert_by_time x (sort_by_time xs)"

text \<open>
  Modelled from the spec: the \<open>RankedEntry\<close> of the missing ranking code, a record
  with its 1-based rank, and the rank assignment by position in the sorted sequence.
\<close>

record RankedEntry =
  entry :: MetricsRecord
  rank_no :: nat

fun number_from :: "nat \<Rightarrow> MetricsRecord list \<Rightarrow> RankedEntry list" where
  "number_from n [] = []"
| "number_from n (x # xs) = \<lparr>entry = x, rank_no = n\<rparr> # number_from (Suc n) xs"

text \<open>
  Modelled from the spec: the missing function \<open>rank\<close>; the records that are ranked,
  sorted ascending by \<open>timeMs\<close>, numbered from 1.
\<close>

definition rank :: "MetricsRecord list \<Rightarrow> RankedEntry list" where
  "rank records = number_from 1 (sort_by_time (filter ranked records))"

section \<open>Properties of the number model\<close>

subsection \<open>The order\<close>

lemma js_ge_not_lt: "js_ge x y \<Longrightarrow> \<not> js_lt x y"
  by (cases x; cases y) (auto simp: js_ge_def)

lemma js_le_trans: "js_le x y \<Longrightarrow> js_le y z \<Longrightarrow> js_le x z"
  by (cases x; cases y; cases z) auto

lemma js_le_total: "x \<noteq> NaN \<Longrightarrow> y \<noteq> NaN \<Longrightarrow> js_le x y \<or> js_le y x"
  by (cases x; cases y) auto

lemma js_le_neg: "js_le x y \<Longrightarrow> js_le (js_neg y) (js_neg x)"
  by (cases x; cases y) auto

lemma js_neg_js_neg: "js_neg (js_neg x) = x"
  by (cases x) simp_all

lemma js_le_PosInf: "x \<noteq> NaN \<Longrightarrow> js_le x PosInf"
  by (cases x) simp_all

lemma js_le_NegInf: "x \<noteq> NaN \<Longrightarrow> js_le NegInf x"
  by (cases x) simp_all

subsection \<open>Powers of two and the binary exponent\<close>

lemma pow2_pos: "0 < (2::rat) powi k"
  by (simp add: zero_less_power_int)

lemma pow2_add: "(2::rat) powi (j + k) = 2 powi j * 2 powi k"
  by (simp add: power_int_add)

lemma pow2_mono: "j \<le> k \<Longrightarrow> (2::rat) powi j \<le> 2 powi k"
  by (rule power_int_increasing) simp_all

lemma pow2_strict_mono: "j < k \<Longrightarrow> (2::rat) powi j < 2 powi k"
  by (rule power_int_strict_increasing) simp_all

lemma pow2_less_imp: "(2::rat) powi j < 2 powi k \<Longrightarrow> j < k"
  using pow2_mono [of k j] by (cases "j < k") auto

lemma pow2_nat: "0 \<le> k \<Longrightarrow> (2::rat) powi k = of_int (2 ^ nat k)"
  by (simp add: power_int_nonneg_exp)

lemma ilog2_bounds:
  assumes "0 < x"
  shows "2 powi (ilog2 x) \<le> x" and "x < 2 powi (ilog2 x + 1)"
proof -
  have "2 powi (ilog2 x) \<le> x \<and> x < 2 powi (ilog2 x + 1)"
  proof (cases "1 \<le> x")
    case True
    define n where "n = \<lfloor>x\<rfloor>"
    have n: "0 < n" using True by (simp add: n_def)
    define e where "e = bitlen n - 1"
    from bitlen_bounds [OF n] have b: "2 ^ nat e \<le> n" "n < 2 ^ nat (bitlen n)"
      by (simp_all add: e_def)
    have e0: "0 \<le> e"
      using n bitlen_eq_zero_iff [of n] bitlen_nonneg [of n] by (simp add: e_def)
    then have s: "nat (bitlen n) = Suc (nat e)" by (simp add: e_def)
    have il: "ilog2 x = e" using True by (simp add: ilog2_def n_def e_def)
    have "(2::rat) powi e = of_int (2 ^ nat e)" using e0 by (rule pow2_nat)
    also have "\<dots> \<le> of_int n" using b(1) by (simp only: of_int_le_iff)
    also have "\<dots> \<le> x" by (simp add: n_def)
    finally have lo: "2 powi e \<le> x" .
    have "n + 1 \<le> 2 ^ nat (bitlen n)" using b(2) by simp
    then have "(of_int (n + 1) :: rat) \<le> of_int (2 ^ nat (bitlen n))"
      by (simp only: of_int_le_iff)
    moreover have "x < of_int (n + 1)" by (simp add: n_def) linarith
    moreover have "(2::rat) powi (e + 1) = of_int (2 ^ nat (bitlen n))"
      using pow2_nat [of "e + 1"] e0 by (simp add: e_def)
    ultimately have "x < 2 powi (e + 1)" by simp
    with lo il show ?thesis by simp
  next
    case False
    define y where "y = 1 / x"
    have y1: "1 < y" using False assms by (simp add: y_def)
    define m where "m = \<lceil>y\<rceil> - 1"
    have m: "0 < m" using y1 by (simp add: m_def)
    define b where "b = bitlen m"
    from bitlen_bounds [OF m] have bb: "2 ^ nat (b - 1) \<le> m" "m < 2 ^ nat b"
      by (simp_all add: b_def)
    have b1: "1 \<le> b"
      using m bitlen_eq_zero_iff [of m] bitlen_nonneg [of m] by (simp add: b_def)
    have il: "ilog2 x = - b" using False by (simp add: ilog2_def y_def m_def b_def)
    have mb: "m + 1 \<le> 2 ^ nat b" using bb(2) by simp
    have "y \<le> of_int (m + 1)" by (simp add: m_def)
    also have "(of_int (m + 1) :: rat) \<le> of_int (2 ^ nat b)"
      using mb by (simp only: of_int_le_iff)
    also have "\<dots> = 2 powi b" using pow2_nat [of b] b1 by simp
    finally have "y \<le> 2 powi b" .
    then have "1 / 2 powi b \<le> 1 / y"
      using y1 by (simp add: frac_le)
    then have lo: "2 powi (- b) \<le> x"
      using assms by (simp add: y_def power_int_minus_divide)
    have "(2::rat) powi (b - 1) = of_int (2 ^ nat (b - 1))" using pow2_nat [of "b - 1"] b1 by simp
    also have "\<dots> \<le> of_int m" using bb(1) by (simp only: of_int_le_iff)
    also have "of_int m < y" unfolding m_def by linarith
    finally have "2 powi (b - 1) < y" .
    then have "1 / y < 1 / 2 powi (b - 1)"
      using pow2_pos [of "b - 1"] by (simp add: frac_less2)
    moreover have "(2::rat) powi (- b + 1) = 1 / 2 powi (b - 1)"
      using power_int_minus_divide [of "2::rat" "b - 1"] by simp
    ultimately have "x < 2 powi (- b + 1)"
      using assms by (simp add: y_def)
    with lo il show ?thesis by simp
  qed
  then show "2 powi (ilog2 x) \<le> x" and "x < 2 powi (ilog2 x + 1)" by simp_all
qed

lemma ilog2_mono:
  assumes "0 < x" and "x \<le> y"
  shows "ilog2 x \<le> ilog2 y"
proof -
  have "2 powi (ilog2 x) \<le> x" using assms(1) by (rule ilog2_bounds)
  also have "x \<le> y" by fact
  also have "y < 2 powi (ilog2 y + 1)" using assms by (intro ilog2_bounds) simp
  finally have "ilog2 x < ilog2 y + 1" by (rule pow2_less_imp)
  then show ?thesis by simp
qed

lemma round_even_cases: "round_even x = \<lfloor>x\<rfloor> \<or> round_even x = \<lfloor>x\<rfloor> + 1"
  by (simp add: round_even_def Let_def)

lemma round_even_of_int: "round_even (of_int n) = n"
  by (simp add: round_even_def Let_def)

lemma round_even_mono:
  assumes "x \<le> y"
  shows "round_even x \<le> round_even y"
proof (cases "\<lfloor>x\<rfloor> = \<lfloor>y\<rfloor>")
  case True
  with assms have "x - of_int \<lfloor>x\<rfloor> \<le> y - of_int \<lfloor>y\<rfloor>" by simp
  with True show ?thesis
    by (auto simp: round_even_def Let_def)
next
  case False
  with assms have "\<lfloor>x\<rfloor> + 1 \<le> \<lfloor>y\<rfloor>"
    using floor_mono [OF assms] by simp
  moreover have "round_even x \<le> \<lfloor>x\<rfloor> + 1" using round_even_cases [of x] by auto
  moreover have "\<lfloor>y\<rfloor> \<le> round_even y" using round_even_cases [of y] by auto
  ultimately show ?thesis by simp
qed

lemma round_even_le: "x \<le> of_int n \<Longrightarrow> round_even x \<le> n"
  using round_even_mono [of x "of_int n"] by (simp add: round_even_of_int)

lemma round_even_ge: "of_int n \<le> x \<Longrightarrow> n \<le> round_even x"
  using round_even_mono [of "of_int n" x] by (simp add: round_even_of_int)


subsection \<open>Rounding to binary64 is monotone\<close>

lemma grid_le:
  assumes "x \<le> 2 powi j" and "k \<le> j"
  shows "of_int (round_even (x / 2 powi k)) * 2 powi k \<le> (2::rat) powi j"
proof -
  have split: "(2::rat) powi j = of_int (2 ^ nat (j - k)) * 2 powi k"
    using pow2_add [of "j - k" k] pow2_nat [of "j - k"] assms(2) by simp
  have "x / 2 powi k \<le> 2 powi j / 2 powi k"
    using assms(1) pow2_pos [of k] by (simp add: divide_right_mono)
  also have "\<dots> = of_int (2 ^ nat (j - k))"
    using pow2_pos [of k] by (simp add: split)
  finally have "round_even (x / 2 powi k) \<le> 2 ^ nat (j - k)"
    by (rule round_even_le)
  then have "(of_int (round_even (x / 2 powi k)) :: rat) \<le> of_int (2 ^ nat (j - k))"
    by (simp only: of_int_le_iff)
  then have "of_int (round_even (x / 2 powi k)) * 2 powi k \<le> of_int (2 ^ nat (j - k)) * (2::rat) powi k"
    using pow2_pos [of k] by (simp only: mult_le_cancel_right_pos)
  then show ?thesis by (simp only: split)
qed

lemma grid_ge:
  assumes "2 powi j \<le> x" and "k \<le> j"
  shows "(2::rat) powi j \<le> of_int (round_even (x / 2 powi k)) * 2 powi k"
proof -
  have split: "(2::rat) powi j = of_int (2 ^ nat (j - k)) * 2 powi k"
    using pow2_add [of "j - k" k] pow2_nat [of "j - k"] assms(2) by simp
  have "of_int (2 ^ nat (j - k)) = 2 powi j / (2::rat) powi k"
    using pow2_pos [of k] by (simp add: split)
  also have "\<dots> \<le> x / 2 powi k"
    using assms(1) pow2_pos [of k] by (simp add: divide_right_mono)
  finally have "2 ^ nat (j - k) \<le> round_even (x / 2 powi k)"
    by (rule round_even_ge)
  then have "(of_int (2 ^ nat (j - k)) :: rat) \<le> of_int (round_even (x / 2 powi k))"
    by (simp only: of_int_le_iff)
  then have "of_int (2 ^ nat (j - k)) * (2::rat) powi k \<le> of_int (round_even (x / 2 powi k)) * 2 powi k"
    using pow2_pos [of k] by (simp only: mult_le_cancel_right_pos)
  then show ?thesis by (simp only: split)
qed

lemma ulp_exp_pos: "ulp_exp x = max (ilog2 x - 52) (- 1074)"
  by (simp add: ulp_exp_def)

lemma ulp_exp_mono: "0 < x \<Longrightarrow> x \<le> y \<Longrightarrow> ulp_exp x \<le> ulp_exp y"
  using ilog2_mono [of x y] by (simp add: ulp_exp_pos)

lemma nearest_upper: 
  assumes "0 < x"
  shows "nearest x \<le> 2 powi (ulp_exp x + 53)"
proof -
  have "ilog2 x + 1 \<le> ulp_exp x + 53" using assms by (simp add: ulp_exp_pos)
  then have "(2::rat) powi (ilog2 x + 1) \<le> 2 powi (ulp_exp x + 53)" by (rule pow2_mono)
  with ilog2_bounds(2) [OF assms] have "x \<le> 2 powi (ulp_exp x + 53)" by simp
  then show ?thesis unfolding nearest_def by (rule grid_le) simp
qed

lemma nearest_nonneg: "0 < x \<Longrightarrow> 0 \<le> nearest x"
proof -
  assume "0 < x"
  then have "(of_int 0 :: rat) \<le> x / 2 powi ulp_exp x"
    using pow2_pos [of "ulp_exp x"] by simp
  then have "0 \<le> round_even (x / 2 powi ulp_exp x)" by (rule round_even_ge)
  then show ?thesis using pow2_pos [of "ulp_exp x"] by (simp add: nearest_def)
qed

lemma nearest_mono:
  assumes "0 < x" and "x \<le> y"
  shows "nearest x \<le> nearest y"
proof (cases "ulp_exp x = ulp_exp y")
  case True
  have "x / 2 powi ulp_exp y \<le> y / 2 powi ulp_exp y"
    using assms(2) pow2_pos [of "ulp_exp y"] by (simp add: divide_right_mono)
  then have "round_even (x / 2 powi ulp_exp y) \<le> round_even (y / 2 powi ulp_exp y)"
    by (rule round_even_mono)
  then have "(of_int (round_even (x / 2 powi ulp_exp y)) :: rat)
      \<le> of_int (round_even (y / 2 powi ulp_exp y))"
    by (simp only: of_int_le_iff)
  then show ?thesis
    using pow2_pos [of "ulp_exp y"] by (simp only: nearest_def True mult_le_cancel_right_pos)
next
  case False
  have y: "0 < y" using assms by simp
  from False have lt: "ulp_exp x < ulp_exp y"
    using ulp_exp_mono [OF assms] by simp
  then have "max (ilog2 x - 52) (- 1074) < max (ilog2 y - 52) (- 1074)"
    using assms y by (simp add: ulp_exp_pos)
  then have "max (ilog2 y - 52) (- 1074) = ilog2 y - 52" and "ilog2 x < ilog2 y"
    by linarith+
  then have ky: "ulp_exp y = ilog2 y - 52" and "ilog2 x < ilog2 y"
    using y by (simp_all add: ulp_exp_pos)
  then have "(2::rat) powi (ilog2 x + 1) \<le> 2 powi (ilog2 y)"
    by (intro pow2_mono) simp
  with ilog2_bounds(2) [OF assms(1)] have "x \<le> 2 powi (ilog2 y)" by simp
  then have "nearest x \<le> 2 powi (ilog2 y)"
    unfolding nearest_def using lt ky by (intro grid_le) simp_all
  also have "2 powi (ilog2 y) \<le> nearest y"
    unfolding nearest_def using ilog2_bounds(1) [OF y] ky by (intro grid_ge) simp_all
  finally show ?thesis .
qed

lemma overflow_iff:
  assumes "0 < x"
  shows "(971 < ulp_exp x \<or> (ulp_exp x = 971 \<and> round_even (x / 2 powi ulp_exp x) = 2 ^ 53))
         = (2 powi 1024 \<le> nearest x)"
proof -
  consider "971 < ulp_exp x" | "ulp_exp x = 971" | "ulp_exp x < 971" by linarith
  then show ?thesis
  proof cases
    case 1
    then have k: "ulp_exp x = ilog2 x - 52" using assms by (simp add: ulp_exp_pos)
    then have "(2::rat) powi 1024 \<le> 2 powi (ilog2 x)" using 1 by (intro pow2_mono) simp
    also have "\<dots> \<le> nearest x"
      unfolding nearest_def using ilog2_bounds(1) [OF assms] k by (intro grid_ge) simp_all
    finally show ?thesis using 1 by simp
  next
    case 2
    have "nearest x \<le> 2 powi (971 + 53)" using nearest_upper [OF assms] by (simp only: 2)
    then have "of_int (round_even (x / 2 powi 971)) * (2::rat) powi 971 \<le> of_int (2 ^ 53) * 2 powi 971"
      using pow2_add [of 53 971] by (simp add: nearest_def 2)
    then have "(of_int (round_even (x / 2 powi 971)) :: rat) \<le> of_int (2 ^ 53)"
      using pow2_pos [of 971] by (simp only: mult_le_cancel_right_pos)
    then have le: "round_even (x / 2 powi 971) \<le> 2 ^ 53" by (simp only: of_int_le_iff)
    have "(2 powi 1024 \<le> nearest x) =
        (of_int (2 ^ 53) * (2::rat) powi 971 \<le> of_int (round_even (x / 2 powi 971)) * 2 powi 971)"
      using pow2_add [of 53 971] by (simp add: nearest_def 2)
    also have "\<dots> = ((of_int (2 ^ 53) :: rat) \<le> of_int (round_even (x / 2 powi 971)))"
      using pow2_pos [of 971] by (simp only: mult_le_cancel_right_pos)
    also have "\<dots> = (2 ^ 53 \<le> round_even (x / 2 powi 971))" by (simp only: of_int_le_iff)
    finally show ?thesis using le 2 by auto
  next
    case 3
    have "nearest x \<le> 2 powi (ulp_exp x + 53)" by (rule nearest_upper [OF assms])
    also have "\<dots> < 2 powi 1024" using 3 by (intro pow2_strict_mono) simp
    finally show ?thesis using 3 by simp
  qed
qed

lemma round_magnitude_eq:
  "0 < x \<Longrightarrow> round_magnitude x = (if 2 powi 1024 \<le> nearest x then PosInf else Fin (nearest x))"
  using overflow_iff [of x] by (simp add: round_magnitude_def Let_def nearest_def)

lemma round_magnitude_nonneg: "0 < x \<Longrightarrow> js_le (Fin 0) (round_magnitude x)"
  using nearest_nonneg [of x] by (auto simp: round_magnitude_eq)

lemma round_magnitude_mono:
  assumes "0 < x" and "x \<le> y"
  shows "js_le (round_magnitude x) (round_magnitude y)"
proof -
  have "0 < y" using assms by simp
  then show ?thesis
    using nearest_mono [OF assms] assms(1) by (auto simp: round_magnitude_eq)
qed

lemma to_double_zero: "to_double 0 = Fin 0"
  by (simp add: to_double_def)

lemma to_double_one: "to_double 1 = Fin 1"
  by code_simp

lemma to_double_minus: "to_double (- x) = js_neg (to_double x)"
  by (simp add: to_double_def js_neg_js_neg)

lemma to_double_mono:
  assumes "x \<le> y"
  shows "js_le (to_double x) (to_double y)"
proof -
  have up: "js_le (Fin 0) (round_magnitude z)" if "0 < z" for z
    using that by (rule round_magnitude_nonneg)
  have down: "js_le (js_neg (round_magnitude z)) (Fin 0)" if "0 < z" for z
    using js_le_neg [OF up [OF that]] by simp
  consider "0 < x" | "x = 0" "y = 0" | "x = 0" "0 < y" | "x < 0" "y < 0" | "x < 0" "y = 0"
    | "x < 0" "0 < y"
    using assms by linarith
  then show ?thesis
  proof cases
    case 1
    then show ?thesis
      using round_magnitude_mono [OF 1 assms] assms by (simp add: to_double_def)
  next
    case 2
    then show ?thesis by (simp add: to_double_def)
  next
    case 3
    then show ?thesis using up [of y] by (simp add: to_double_def)
  next
    case 4
    then have "js_le (round_magnitude (- y)) (round_magnitude (- x))"
      using assms by (intro round_magnitude_mono) simp_all
    then have "js_le (js_neg (round_magnitude (- x))) (js_neg (round_magnitude (- y)))"
      by (rule js_le_neg)
    with 4 show ?thesis by (simp add: to_double_def)
  next
    case 5
    then show ?thesis using down [of "- x"] by (simp add: to_double_def)
  next
    case 6
    then have "js_le (js_neg (round_magnitude (- x))) (round_magnitude y)"
      using js_le_trans [OF down [of "- x"] up [of y]] by simp
    with 6 show ?thesis by (simp add: to_double_def)
  qed
qed

lemma to_double_overflow:
  assumes "2 powi 1024 \<le> x"
  shows "to_double x = PosInf"
proof -
  have x: "0 < x" using assms pow2_pos [of 1024] by linarith
  have "(2::rat) powi 1024 < 2 powi (ilog2 x + 1)"
    using assms ilog2_bounds(2) [OF x] by linarith
  then have "1024 < ilog2 x + 1" by (rule pow2_less_imp)
  then have "971 < ulp_exp x" by (simp add: ulp_exp_def)
  with x show ?thesis by (simp add: to_double_def round_magnitude_def Let_def)
qed

lemma to_double_not_NaN: "to_double x \<noteq> NaN"
  using to_double_mono [of x x] by auto

subsection \<open>The arithmetic of the percentage is monotone\<close>

lemma js_mul_minus_hundred: "js_mul x (Fin (- 100)) = js_mul (js_neg x) (Fin 100)"
proof (cases x)
  case (Fin a)
  have "a * (- 100) = - (a * 100)" and "(- a) * 100 = - (a * 100)" by simp_all
  with Fin show ?thesis by (simp only: js_mul.simps js_neg.simps)
qed simp_all

lemma js_sub_one_mono: "js_le x y \<Longrightarrow> js_le (js_sub x (Fin 1)) (js_sub y (Fin 1))"
  by (cases x; cases y)
    (auto intro!: to_double_mono simp: to_double_not_NaN js_le_PosInf js_le_NegInf)

lemma js_mul_hundred_mono: "js_le x y \<Longrightarrow> js_le (js_mul x (Fin 100)) (js_mul y (Fin 100))"
  by (cases x; cases y)
    (auto intro!: to_double_mono simp: to_double_not_NaN js_le_PosInf js_le_NegInf)

lemma js_le_Fin: "js_le (Fin a) (Fin b) = (a \<le> b)"
  by auto

lemma Math_round_mono:
  assumes "js_le x y"
  shows "js_le (Math_round x) (Math_round y)"
proof (cases x; cases y)
  fix a b
  assume xy: "x = Fin a" "y = Fin b"
  with assms have "a \<le> b" by (simp only: js_le_Fin)
  then have "\<lfloor>a + 1 / 2\<rfloor> \<le> \<lfloor>b + 1 / 2\<rfloor>" by (intro floor_mono) simp
  then have "(of_int \<lfloor>a + 1 / 2\<rfloor> :: rat) \<le> of_int \<lfloor>b + 1 / 2\<rfloor>" by (simp only: of_int_le_iff)
  then show ?thesis
    by (simp only: xy Math_round.simps js_le_Fin)
qed (use assms in simp_all)

lemma slower_value_mono:
  assumes "js_le x y"
  shows "js_le (js_mul (js_sub x (Fin 1)) (Fin 100)) (js_mul (js_sub y (Fin 1)) (Fin 100))"
  using assms by (intro js_mul_hundred_mono js_sub_one_mono)

lemma faster_value_mono:
  assumes "js_le x y"
  shows "js_le (js_mul (js_sub y (Fin 1)) (Fin (- 100))) (js_mul (js_sub x (Fin 1)) (Fin (- 100)))"
  unfolding js_mul_minus_hundred
  using assms by (intro js_mul_hundred_mono js_le_neg js_sub_one_mono)

lemma slower_value_nonneg:
  assumes "js_le (Fin 1) q"
  shows "js_le (Fin 0) (js_mul (js_sub q (Fin 1)) (Fin 100))"
  using slower_value_mono [OF assms] by (simp add: to_double_zero)

lemma faster_value_nonneg:
  assumes "js_le q (Fin 1)"
  shows "js_le (Fin 0) (js_mul (js_sub q (Fin 1)) (Fin (- 100)))"
  using faster_value_mono [OF assms] by (simp add: to_double_zero)

subsection \<open>The two roundings\<close>


lemma Math_round_nonneg:
  "js_le (Fin 0) v \<Longrightarrow> Math_round v = PosInf \<or> (\<exists>n. 0 \<le> n \<and> Math_round v = Fin (of_int n))"
proof (cases v)
  case (Fin a)
  assume "js_le (Fin 0) v"
  with Fin have "0 \<le> a" by auto
  then have "0 \<le> \<lfloor>a + 1 / 2\<rfloor>" by simp
  with Fin show ?thesis by simp
qed simp_all

section \<open>Properties of the comparison\<close>

text \<open>What a comparison of two finite positive times is.\<close>

lemma compare_finite_positive:
  assumes "timeMs r = Fin a" and "timeMs b = Fin c" and "0 < a" and "0 < c"
    and "compare r b = Some (d, p)"
  shows "(a < c \<and> d = Faster
          \<and> p = Math_round (js_mul (js_sub (to_double (a / c)) (Fin 1)) (Fin (- 100))))
       \<or> (c \<le> a \<and> d = Slower
          \<and> p = Math_round (js_mul (js_sub (to_double (a / c)) (Fin 1)) (Fin 100)))"
  using assms
  by (auto simp: compare_def comparison_def parseFloat_def js_gt_def split: if_splits)

lemma quotient_below_one: "0 < c \<Longrightarrow> a < c \<Longrightarrow> js_le (to_double (a / c)) (Fin 1)"
  using to_double_mono [of "a / c" 1] by (simp add: to_double_one)

lemma quotient_above_one: "0 < c \<Longrightarrow> c \<le> a \<Longrightarrow> js_le (Fin 1) (to_double (a / c))"
  using to_double_mono [of 1 "a / c"] by (simp add: to_double_one)

text \<open>The value that is given to \<open>Math.round\<close> is not negative.\<close>

lemma percent_value_nonneg:
  assumes "timeMs r = Fin a" and "timeMs b = Fin c" and "0 < a" and "0 < c"
    and "compare r b = Some (d, p)"
  shows "js_le (Fin 0)
           (js_mul (js_sub (js_div (timeMs r) (timeMs b)) (Fin 1))
              (Fin (if d = Faster then - 100 else 100)))
       \<and> p = Math_round
           (js_mul (js_sub (js_div (timeMs r) (timeMs b)) (Fin 1))
              (Fin (if d = Faster then - 100 else 100)))"
proof -
  have q: "js_div (timeMs r) (timeMs b) = to_double (a / c)"
    using assms(1,2,4) by simp
  from compare_finite_positive [OF assms] show ?thesis
  proof (elim disjE conjE)
    assume "a < c" "d = Faster"
      "p = Math_round (js_mul (js_sub (to_double (a / c)) (Fin 1)) (Fin (- 100)))"
    then show ?thesis
      using faster_value_nonneg [OF quotient_below_one [OF assms(4)], of a] by (simp add: q)
  next
    assume "c \<le> a" "d = Slower"
      "p = Math_round (js_mul (js_sub (to_double (a / c)) (Fin 1)) (Fin 100))"
    then show ?thesis
      using slower_value_nonneg [OF quotient_above_one [OF assms(4)], of a] by (simp add: q)
  qed
qed

text \<open>
  The percentages at 0.51 percent above and below the baseline, evaluated.
\<close>

lemma slower_margin_value:
  "Math_round (js_mul (js_sub (to_double (10051 / 10000)) (Fin 1)) (Fin 100)) = Fin 1"
  by code_simp

lemma faster_margin_value:
  "Math_round (js_mul (js_sub (to_double (9949 / 10000)) (Fin 1)) (Fin (- 100))) = Fin 1"
  by code_simp

text \<open>
  C1, at a baseline that was not measured: the candidate merge with 140 ms against the
  baseline quick with 0 ms. The guard tests the candidate's time only, so the block is
  rendered, and it shows \<open>Infinity% slower\<close>.
\<close>

theorem compare_baseline_zero:
  "compare (''merge'', \<lparr>swaps = 0, comparisons = 0, time = Fin 140\<rparr>)
           (''quick'', \<lparr>swaps = 0, comparisons = 0, time = Fin 0\<rparr>)
     = Some (Slower, PosInf)"
  by (simp add: compare_def comparison_def js_gt_def parseFloat_def)

text \<open>A candidate time that is not above zero gives nothing.\<close>

lemma compare_candidate_unmeasured: "js_le (timeMs r) (Fin 0) \<Longrightarrow> compare r b = None"
  by (cases "timeMs r") (auto simp: compare_def comparison_def js_gt_def)

text \<open>
  C2: for records with distinct algorithm identifiers for which a comparison is produced,
  a candidate time below the baseline's gives \<open>faster\<close> with
  \<open>round(-(r.timeMs / b.timeMs - 1) * 100)\<close>, and a candidate time that is at least
  the baseline's gives \<open>slower\<close> with \<open>round((r.timeMs / b.timeMs - 1) * 100)\<close>;
  \<open>round\<close> is the component's \<open>Math.round\<close>.
\<close>

theorem compare_direction_percent:
  assumes "algorithmId r \<noteq> algorithmId b" and "compare r b = Some res"
  shows "(js_lt (timeMs r) (timeMs b) \<longrightarrow>
            res = (Faster,
              Math_round (js_mul (js_neg (js_sub (js_div (timeMs r) (timeMs b)) (Fin 1))) (Fin 100))))
       \<and> (js_ge (timeMs r) (timeMs b) \<longrightarrow>
            res = (Slower,
              Math_round (js_mul (js_sub (js_div (timeMs r) (timeMs b)) (Fin 1)) (Fin 100))))"
proof (intro conjI impI)
  assume "js_lt (timeMs r) (timeMs b)"
  with assms(2) show "res = (Faster,
      Math_round (js_mul (js_neg (js_sub (js_div (timeMs r) (timeMs b)) (Fin 1))) (Fin 100)))"
    by (auto simp: compare_def comparison_def parseFloat_def js_mul_minus_hundred
        split: if_splits)
next
  assume "js_ge (timeMs r) (timeMs b)"
  then have "\<not> js_lt (timeMs r) (timeMs b)"
    by (rule js_ge_not_lt)
  with assms(2) show "res = (Slower,
      Math_round (js_mul (js_sub (js_div (timeMs r) (timeMs b)) (Fin 1)) (Fin 100)))"
    by (auto simp: compare_def comparison_def parseFloat_def split: if_splits)
qed

theorem compare_direction_percent_witness:
  "compare (''quick'', \<lparr>swaps = 0, comparisons = 0, time = Fin 120\<rparr>)
           (''merge'', \<lparr>swaps = 0, comparisons = 0, time = Fin 140\<rparr>)
     = Some (Faster, Fin 14)
   \<and> compare (''bubble'', \<lparr>swaps = 0, comparisons = 0, time = Fin 980\<rparr>)
             (''quick'', \<lparr>swaps = 0, comparisons = 0, time = Fin 120\<rparr>)
     = Some (Slower, Fin 717)"
proof -
  let ?q = "(''quick'', \<lparr>swaps = 0, comparisons = 0, time = Fin 120\<rparr>)"
  let ?m = "(''merge'', \<lparr>swaps = 0, comparisons = 0, time = Fin 140\<rparr>)"
  let ?b = "(''bubble'', \<lparr>swaps = 0, comparisons = 0, time = Fin 980\<rparr>)"
  have v1: "Math_round (js_mul (js_neg (js_sub (js_div (Fin 120) (Fin 140)) (Fin 1))) (Fin 100))
      = Fin 14"
    by code_simp
  have v2: "Math_round (js_mul (js_sub (js_div (Fin 980) (Fin 120)) (Fin 1)) (Fin 100))
      = Fin 717"
    by code_simp
  obtain x where x: "compare ?q ?m = Some x"
    by (simp add: compare_def comparison_def js_gt_def parseFloat_def)
  obtain y where y: "compare ?b ?q = Some y"
    by (simp add: compare_def comparison_def js_gt_def parseFloat_def)
  have "x = (Faster, Fin 14)"
    using compare_direction_percent [of ?q ?m x] x by (simp add: v1 del: js_div.simps)
  moreover have "y = (Slower, Fin 717)"
    using compare_direction_percent [of ?b ?q y] y
    by (simp add: v2 js_ge_def del: js_div.simps)
  ultimately show ?thesis
    using x y by simp
qed

text \<open>
  C3: comparing merge with 140 ms against the baseline quick with 120 ms gives
  \<open>slower\<close> with 17 percent.
\<close>

theorem compare_merge_quick_example:
  "compare (''merge'', \<lparr>swaps = 0, comparisons = 0, time = Fin 140\<rparr>)
           (''quick'', \<lparr>swaps = 0, comparisons = 0, time = Fin 120\<rparr>)
     = Some (Slower, Fin 17)"
  by code_simp

text \<open>
  C4: a record is never compared against a record with the same algorithm identifier,
  whatever the two times are.
\<close>

theorem compare_self_none: "algorithmId r = algorithmId b \<Longrightarrow> compare r b = None"
  by (simp add: compare_def comparison_def)

theorem compare_self_none_witness:
  "compare (''quick'', \<lparr>swaps = 0, comparisons = 0, time = Fin 120\<rparr>)
           (''quick'', \<lparr>swaps = 0, comparisons = 0, time = Fin 120\<rparr>) = None"
  using compare_self_none
    [of "(''quick'', \<lparr>swaps = 0, comparisons = 0, time = Fin 120\<rparr>)"
        "(''quick'', \<lparr>swaps = 0, comparisons = 0, time = Fin 120\<rparr>)"]
  by simp




text \<open>
  C6, as stated, fails: merge and quick both at 120 ms are two eligible records, and the
  comparison shows \<open>0% slower\<close>, which is not a positive number. Two records whose
  times are both infinite are eligible as well, and the comparison shows \<open>NaN% slower\<close>.
\<close>

theorem compare_percent_positive_counterexample:
  "js_gt (timeMs (''merge'', \<lparr>swaps = 0, comparisons = 0, time = Fin 120\<rparr>)) (Fin 0)
   \<and> js_gt (timeMs (''quick'', \<lparr>swaps = 0, comparisons = 0, time = Fin 120\<rparr>)) (Fin 0)
   \<and> compare (''merge'', \<lparr>swaps = 0, comparisons = 0, time = Fin 120\<rparr>)
             (''quick'', \<lparr>swaps = 0, comparisons = 0, time = Fin 120\<rparr>)
       = Some (Slower, Fin 0)
   \<and> \<not> js_gt (snd (the (compare (''merge'', \<lparr>swaps = 0, comparisons = 0, time = Fin 120\<rparr>)
                                  (''quick'', \<lparr>swaps = 0, comparisons = 0, time = Fin 120\<rparr>))))
             (Fin 0)
   \<and> js_gt (timeMs (''merge'', \<lparr>swaps = 0, comparisons = 0, time = PosInf\<rparr>)) (Fin 0)
   \<and> js_gt (timeMs (''quick'', \<lparr>swaps = 0, comparisons = 0, time = PosInf\<rparr>)) (Fin 0)
   \<and> compare (''merge'', \<lparr>swaps = 0, comparisons = 0, time = PosInf\<rparr>)
             (''quick'', \<lparr>swaps = 0, comparisons = 0, time = PosInf\<rparr>)
       = Some (Slower, NaN)
   \<and> \<not> js_gt NaN (Fin 0)"
  by code_simp

text \<open>
  Two finite times above zero whose quotient is beyond the binary64 range: the
  comparison shows \<open>Infinity% slower\<close>.
\<close>

lemma compare_overflow_example:
  "compare (''bubble'', \<lparr>swaps = 0, comparisons = 0, time = Fin (2 ^ 1023)\<rparr>)
           (''quick'', \<lparr>swaps = 0, comparisons = 0, time = Fin (1 / 4)\<rparr>)
     = Some (Slower, PosInf)"
proof -
  have "to_double (2 ^ 1023 / (1 / 4)) = PosInf"
    by (rule to_double_overflow) simp
  then show ?thesis
    by (simp add: compare_def comparison_def js_gt_def parseFloat_def)
qed

text \<open>
  C6, amended: whenever a comparison is produced for two finite times above zero, the
  percentage is never negative: it is a non-negative integer, or infinity when the
  computation overflows. It is positive, at least 1, whenever the candidate's
  time is at least 0.51 percent of the baseline's time above or below the baseline's.
\<close>

theorem compare_percent_nonneg:
  assumes "timeMs r = Fin a" and "timeMs b = Fin c" and "0 < a" and "0 < c"
    and "compare r b = Some (d, p)"
  shows "(p = PosInf \<or> (\<exists>n. 0 \<le> n \<and> p = Fin (of_int n)))
       \<and> (a \<le> 9949 / 10000 * c \<or> 10051 / 10000 * c \<le> a \<longrightarrow> js_ge p (Fin 1))"
proof (intro conjI impI)
  show "p = PosInf \<or> (\<exists>n. 0 \<le> n \<and> p = Fin (of_int n))"
    using percent_value_nonneg [OF assms] Math_round_nonneg by simp
next
  assume "a \<le> 9949 / 10000 * c \<or> 10051 / 10000 * c \<le> a"
  then show "js_ge p (Fin 1)"
  proof
    assume far: "a \<le> 9949 / 10000 * c"
    then have "a / c \<le> 9949 / 10000"
      using assms(4) by (simp add: pos_divide_le_eq)
    then have "js_le (to_double (a / c)) (to_double (9949 / 10000))"
      by (rule to_double_mono)
    then have "js_le
        (Math_round (js_mul (js_sub (to_double (9949 / 10000)) (Fin 1)) (Fin (- 100))))
        (Math_round (js_mul (js_sub (to_double (a / c)) (Fin 1)) (Fin (- 100))))"
      by (intro Math_round_mono faster_value_mono)
    then have "js_le (Fin 1)
        (Math_round (js_mul (js_sub (to_double (a / c)) (Fin 1)) (Fin (- 100))))"
      by (simp only: faster_margin_value)
    moreover have "a < c" using far assms(4) by simp
    ultimately show ?thesis
      using compare_finite_positive [OF assms] by (auto simp: js_ge_def)
  next
    assume far: "10051 / 10000 * c \<le> a"
    then have "10051 / 10000 \<le> a / c"
      using assms(4) by (simp add: pos_le_divide_eq)
    then have "js_le (to_double (10051 / 10000)) (to_double (a / c))"
      by (rule to_double_mono)
    then have "js_le
        (Math_round (js_mul (js_sub (to_double (10051 / 10000)) (Fin 1)) (Fin 100)))
        (Math_round (js_mul (js_sub (to_double (a / c)) (Fin 1)) (Fin 100)))"
      by (intro Math_round_mono slower_value_mono)
    then have "js_le (Fin 1)
        (Math_round (js_mul (js_sub (to_double (a / c)) (Fin 1)) (Fin 100)))"
      by (simp only: slower_margin_value)
    moreover have "c \<le> a" using far assms(4) by simp
    ultimately show ?thesis
      using compare_finite_positive [OF assms] by (auto simp: js_ge_def)
  qed
qed

theorem compare_percent_nonneg_witness:
  "compare (''merge'', \<lparr>swaps = 0, comparisons = 0, time = Fin 140\<rparr>)
           (''quick'', \<lparr>swaps = 0, comparisons = 0, time = Fin 120\<rparr>)
     = Some (Slower, Fin 17)
   \<and> (Fin 17 = PosInf \<or> (\<exists>n. 0 \<le> n \<and> Fin 17 = Fin (of_int n)))
   \<and> js_ge (Fin 17) (Fin 1)"
proof -
  let ?m = "(''merge'', \<lparr>swaps = 0, comparisons = 0, time = Fin 140\<rparr>)"
  let ?q = "(''quick'', \<lparr>swaps = 0, comparisons = 0, time = Fin 120\<rparr>)"
  have e: "compare ?m ?q = Some (Slower, Fin 17)"
    by code_simp
  have "(Fin 17 = PosInf \<or> (\<exists>n. 0 \<le> n \<and> Fin 17 = Fin (of_int n)))
      \<and> (140 \<le> 9949 / 10000 * (120::rat) \<or> 10051 / 10000 * 120 \<le> (140::rat)
          \<longrightarrow> js_ge (Fin 17) (Fin 1))"
    using e by (intro compare_percent_nonneg [of ?m 140 ?q 120 Slower "Fin 17"]) simp_all
  with e show ?thesis by simp
qed

text \<open>
  C8: when \<open>currentAlgoMetrics\<close> is absent (\<open>null\<close> or \<open>undefined\<close>), no comparison
  is produced, whatever the candidate's fields are.
\<close>

theorem comparison_baseline_absent:
  "comparison algo algoMetrics algorithm None = None"
  by (simp add: comparison_def)

section \<open>Properties of the ranking engine\<close>

lemma ranked_iff:
  "ranked r = (js_gt (timeMs r) (Fin 0) \<and> 0 \<le> swaps (snd r) \<and> 0 \<le> comparisons (snd r))"
  by (cases "timeMs r") (auto simp: ranked_def eligible_def InvalidRecord_def js_gt_def)

lemma ranked_not_NaN: "ranked r \<Longrightarrow> timeMs r \<noteq> NaN"
  by (auto simp: ranked_def eligible_def js_gt_def)

lemma mset_insert_by_time: "mset (insert_by_time x xs) = add_mset x (mset xs)"
  by (induction xs) auto

lemma mset_sort_by_time: "mset (sort_by_time xs) = mset xs"
  by (induction xs) (auto simp: mset_insert_by_time)

lemma set_insert_by_time: "set (insert_by_time x xs) = insert x (set xs)"
  by (induction xs) auto

lemma set_sort_by_time: "set (sort_by_time xs) = set xs"
  by (induction xs) (auto simp: set_insert_by_time)

lemma sorted_insert_by_time:
  assumes "timeMs x \<noteq> NaN" and "\<forall>y \<in> set xs. timeMs y \<noteq> NaN"
    and "sorted_wrt (\<lambda>a b. js_le (timeMs a) (timeMs b)) xs"
  shows "sorted_wrt (\<lambda>a b. js_le (timeMs a) (timeMs b)) (insert_by_time x xs)"
  using assms
proof (induction xs)
  case Nil
  then show ?case by simp
next
  case (Cons y ys)
  show ?case
  proof (cases "js_le (timeMs x) (timeMs y)")
    case True
    then have "\<forall>z \<in> set ys. js_le (timeMs x) (timeMs z)"
      using Cons.prems(3) by (auto intro: js_le_trans)
    with True Cons.prems(3) show ?thesis by simp
  next
    case False
    then have "js_le (timeMs y) (timeMs x)"
      using js_le_total [of "timeMs x" "timeMs y"] Cons.prems(1,2) by simp
    moreover have "sorted_wrt (\<lambda>a b. js_le (timeMs a) (timeMs b)) (insert_by_time x ys)"
      using Cons by simp
    ultimately show ?thesis
      using False Cons.prems(3) by (simp add: set_insert_by_time)
  qed
qed

lemma sorted_sort_by_time:
  "\<forall>y \<in> set xs. timeMs y \<noteq> NaN \<Longrightarrow>
     sorted_wrt (\<lambda>a b. js_le (timeMs a) (timeMs b)) (sort_by_time xs)"
  by (induction xs) (auto simp: sorted_insert_by_time set_sort_by_time)

lemma map_entry_number_from: "map entry (number_from n xs) = xs"
  by (induction xs arbitrary: n) auto

lemma map_rank_no_number_from: "map rank_no (number_from n xs) = [n..<n + length xs]"
  by (induction xs arbitrary: n) (auto simp: upt_rec)

lemma length_sort_by_time: "length (sort_by_time xs) = length xs"
  using mset_sort_by_time [of xs] by (metis size_mset)

text \<open>
  C7, as stated, fails: a bubble record with a time of 10 ms and -1 swaps has
  \<open>timeMs > 0\<close>, and the ranking engine excludes it as an invalid record.
\<close>

theorem rank_invalid_record_counterexample:
  "js_gt (timeMs (''bubble'', \<lparr>swaps = - 1, comparisons = 0, time = Fin 10\<rparr>)) (Fin 0)
   \<and> rank [(''bubble'', \<lparr>swaps = - 1, comparisons = 0, time = Fin 10\<rparr>)] = []"
  by (simp add: rank_def ranked_def eligible_def InvalidRecord_def js_gt_def)

text \<open>
  C7, amended: for every input, \<open>rank\<close> gives the entries sorted ascending by
  \<open>timeMs\<close>; they are exactly the records with \<open>timeMs > 0\<close> whose swaps and
  comparisons are not negative (each as often as in the input), there are as many
  entries as such records, and the ranks are 1, 2, ..., N.
\<close>

theorem rank_sorted_contiguous:
  "sorted_wrt (\<lambda>a b. js_le (timeMs a) (timeMs b)) (map entry (rank records))
   \<and> mset (map entry (rank records)) = mset (filter ranked records)
   \<and> length (rank records) = length (filter ranked records)
   \<and> map rank_no (rank records) = [1..<Suc (length (filter ranked records))]"
proof -
  let ?es = "filter ranked records"
  have "\<forall>y \<in> set ?es. timeMs y \<noteq> NaN"
    by (auto dest: ranked_not_NaN)
  then have "sorted_wrt (\<lambda>a b. js_le (timeMs a) (timeMs b)) (sort_by_time ?es)"
    by (rule sorted_sort_by_time)
  moreover have "length (rank records) = length ?es"
    using arg_cong [OF map_entry_number_from [of 1 "sort_by_time ?es"], of length]
    by (simp add: rank_def length_sort_by_time)
  ultimately show ?thesis
    by (simp add: rank_def map_entry_number_from map_rank_no_number_from
        mset_sort_by_time length_sort_by_time)
qed

section \<open>Properties of the presentation\<close>

lemma schemes_distinct:
  "distinct [green_scheme, cyan_scheme, red_scheme, slate_scheme]"
  by (simp add: green_scheme_def cyan_scheme_def red_scheme_def slate_scheme_def)

text \<open>
  C9: the colour scheme is defined for every algorithm identifier: quick, merge and heap
  get the green scheme, radix and bucket the cyan one, insertion, selection and bubble
  the red one, and every other identifier the slate default.
\<close>

theorem getColorScheme_classification:
  "(algo \<in> {''quick'', ''merge'', ''heap''} \<longrightarrow> getColorScheme algo = green_scheme)
   \<and> (algo \<in> {''radix'', ''bucket''} \<longrightarrow> getColorScheme algo = cyan_scheme)
   \<and> (algo \<in> {''insertion'', ''selection'', ''bubble''} \<longrightarrow> getColorScheme algo = red_scheme)
   \<and> (algo \<notin> {''quick'', ''merge'', ''heap'', ''radix'', ''bucket'',
                 ''insertion'', ''selection'', ''bubble''}
        \<longrightarrow> getColorScheme algo = slate_scheme)
   \<and> getColorScheme algo \<in> {green_scheme, cyan_scheme, red_scheme, slate_scheme}"
  by (auto simp: getColorScheme_def)

theorem getColorScheme_classification_witness:
  "getColorScheme ''heap'' = green_scheme
   \<and> getColorScheme ''bucket'' = cyan_scheme
   \<and> getColorScheme ''bubble'' = red_scheme
   \<and> getColorScheme ''shell'' = slate_scheme"
  using getColorScheme_classification [of "''heap''"]
    getColorScheme_classification [of "''bucket''"]
    getColorScheme_classification [of "''bubble''"]
    getColorScheme_classification [of "''shell''"]
  by simp

text \<open>
  C10: for every rank from 1 on, the width of the performance bar lies between 5 and
  100 percent; rank 1 gives 100 and every rank from 8 on gives 5.
\<close>

theorem barWidth_range:
  "1 \<le> k \<Longrightarrow>
     5 \<le> barWidth k \<and> barWidth k \<le> 100
     \<and> (k = 1 \<longrightarrow> barWidth k = 100) \<and> (8 \<le> k \<longrightarrow> barWidth k = 5)"
  by (auto simp: barWidth_def Math_max_def)

theorem barWidth_range_witness:
  "barWidth 1 = 100 \<and> barWidth 8 = 5 \<and> 5 \<le> barWidth 3 \<and> barWidth 3 \<le> 100"
  using barWidth_range [of 1] barWidth_range [of 8] barWidth_range [of 3]
  by simp

end
